theory Spec2Isabelle
  imports Main
begin

section \<open>Update parameters: \<open>UpdaterConfig\<close>\<close>

text \<open>
  Embedding of \<^verbatim>\<open>apache/aurora/client/api/updater_util.py\<close>. Python integers are
  unbounded, so every number is an \<^typ>\<open>int\<close>. A raised exception is the left summand
  of the result.
\<close>

datatype error = ValueError string

record UpdaterConfig =
  batch_size :: int
  restart_threshold :: int
  watch_secs :: int
  max_total_failures :: int
  max_per_instance_failures :: int

text \<open>
  \<open>UpdaterConfig.__init__\<close>: three guards in the order of the source, each raising
  \<open>ValueError\<close> with its own message; then the five attributes are stored, the
  argument \<open>max_per_shard_failures\<close> under the name \<open>max_per_instance_failures\<close>.
\<close>

definition UpdaterConfig_init :: "int \<Rightarrow> int \<Rightarrow> int \<Rightarrow> int \<Rightarrow> int \<Rightarrow> error + UpdaterConfig" where
  "UpdaterConfig_init bs rt ws max_per_shard_failures mtf =
     (if bs \<le> 0 then Inl (ValueError ''Batch size should be greater than 0'')
      else if rt \<le> 0 then Inl (ValueError ''Restart Threshold should be greater than 0'')
      else if ws \<le> 0 then Inl (ValueError ''Watch seconds should be greater than 0'')
      else Inr \<lparr> batch_size = bs, restart_threshold = rt, watch_secs = ws,
                 max_total_failures = mtf,
                 max_per_instance_failures = max_per_shard_failures \<rparr>)"

section \<open>Failure accounting: \<open>FailureThreshold\<close>\<close>

subsection \<open>The counter dictionary\<close>

text \<open>
  \<open>collections.defaultdict(int)\<close> is an association list in insertion order with one
  entry per key. Its keys are opaque hashable values, the type variable \<open>'k\<close>.
\<close>

type_synonym 'k counters = "('k \<times> int) list"

text \<open>\<open>d[k] = v\<close>: an existing entry is overwritten in place, a new one is appended.\<close>

fun dict_setitem :: "'k counters \<Rightarrow> 'k \<Rightarrow> int \<Rightarrow> 'k counters" where
  "dict_setitem [] k v = [(k, v)]"
| "dict_setitem ((k', v') # d) k v =
     (if k' = k then (k', v) # d else (k', v') # dict_setitem d k v)"

text \<open>
  \<open>d[k]\<close> on a \<open>defaultdict(int)\<close>: a missing key is first stored with \<open>int() = 0\<close>,
  so the read returns the value and the possibly extended dictionary.
\<close>

definition defaultdict_getitem :: "'k counters \<Rightarrow> 'k \<Rightarrow> int \<times> 'k counters" where
  "defaultdict_getitem d k =
     (case map_of d k of
        Some v \<Rightarrow> (v, d)
      | None \<Rightarrow> (0, dict_setitem d k 0))"

text \<open>\<open>d.values()\<close> and \<open>d.items()\<close> read the dictionary and never insert.\<close>

definition dict_values :: "'k counters \<Rightarrow> int list" where
  "dict_values d = map snd d"

definition dict_items :: "'k counters \<Rightarrow> ('k \<times> int) list" where
  "dict_items d = d"

subsection \<open>The accountant\<close>

text \<open>
  The three private attributes of the class; the leading underscore of the source names
  is replaced by the prefix \<open>ft_\<close>.
\<close>

record 'k FailureThreshold =
  ft_max_per_instance_failures :: int
  ft_max_total_failures :: int
  ft_failures_by_instance :: "'k counters"

definition FailureThreshold_init :: "int \<Rightarrow> int \<Rightarrow> 'k FailureThreshold" where
  "FailureThreshold_init max_per max_total =
     \<lparr> ft_max_per_instance_failures = max_per,
       ft_max_total_failures = max_total,
       ft_failures_by_instance = [] \<rparr>"

text \<open>
  The body of the \<open>for\<close> loop of \<open>update_failure_counts\<close>: \<open>+= 1\<close> is a read followed
  by a store, the comparison reads the counter again, and the instance is appended to
  the result list when its counter is above the per-instance limit.
\<close>

definition update_failure_counts_body ::
  "'k FailureThreshold \<Rightarrow> 'k list \<Rightarrow> 'k \<Rightarrow> 'k list \<times> 'k FailureThreshold" where
  "update_failure_counts_body s exceeded inst =
     (let (c, d1) = defaultdict_getitem (ft_failures_by_instance s) inst;
          d2 = dict_setitem d1 inst (c + 1);
          (c', d3) = defaultdict_getitem d2 inst;
          exceeded' = (if c' > ft_max_per_instance_failures s
                       then exceeded @ [inst] else exceeded)
      in (exceeded', s\<lparr>ft_failures_by_instance := d3\<rparr>))"

fun update_failure_counts_loop ::
  "'k FailureThreshold \<Rightarrow> 'k list \<Rightarrow> 'k list \<Rightarrow> 'k list \<times> 'k FailureThreshold" where
  "update_failure_counts_loop s exceeded [] = (exceeded, s)"
| "update_failure_counts_loop s exceeded (inst # rest) =
     (case update_failure_counts_body s exceeded inst of
        (exceeded', s') \<Rightarrow> update_failure_counts_loop s' exceeded' rest)"

text \<open>\<open>update_failure_counts\<close> returns the list it built and the mutated accountant.\<close>

definition update_failure_counts ::
  "'k FailureThreshold \<Rightarrow> 'k list \<Rightarrow> 'k list \<times> 'k FailureThreshold" where
  "update_failure_counts s failed_instances = update_failure_counts_loop s [] failed_instances"

text \<open>
  \<open>_exceeded_instance_fail_count\<close>: the sum of the booleans \<open>count > limit\<close> over the
  stored values, a Python \<open>bool\<close> counting as 0 or 1.
\<close>

definition exceeded_instance_fail_count :: "'k FailureThreshold \<Rightarrow> int" where
  "exceeded_instance_fail_count s =
     sum_list (map (\<lambda>count. of_bool (count > ft_max_per_instance_failures s))
                   (dict_values (ft_failures_by_instance s)))"

text \<open>
  What \<open>log.error\<close> receives, kept as the arguments of the two format strings:
  the summary line and one line per instance above its limit.
\<close>

datatype 'k log_line =
    FailedInstancesObserved int int
  | InstanceFailures int 'k int

text \<open>
  \<open>is_failed_update\<close> returns the verdict, the lines it logged and the accountant it
  leaves behind.
\<close>

definition is_failed_update :: "'k FailureThreshold \<Rightarrow> bool \<times> 'k log_line list \<times> 'k FailureThreshold" where
  "is_failed_update s =
     (let total_failed_instances = exceeded_instance_fail_count s;
          is_failed = (total_failed_instances > ft_max_total_failures s)
      in (is_failed,
          (if is_failed
           then FailedInstancesObserved total_failed_instances (ft_max_total_failures s) #
                map (\<lambda>(inst, failure_count).
                       InstanceFailures failure_count inst (ft_max_per_instance_failures s))
                    (filter (\<lambda>(inst, failure_count).
                               failure_count > ft_max_per_instance_failures s)
                            (dict_items (ft_failures_by_instance s)))
           else []),
          s))"

subsection \<open>Reading the model\<close>

text \<open>The stored counter of an instance, 0 for an instance never referenced.\<close>

definition failure_count :: "'k FailureThreshold \<Rightarrow> 'k \<Rightarrow> int" where
  "failure_count s i = (case map_of (ft_failures_by_instance s) i of Some c \<Rightarrow> c | None \<Rightarrow> 0)"

text \<open>A dictionary holds each key once.\<close>

definition wf_counters :: "'k FailureThreshold \<Rightarrow> bool" where
  "wf_counters s = distinct (map fst (ft_failures_by_instance s))"

text \<open>A rollout: the accountant after a sequence of batches, starting from \<open>s\<close>.\<close>

fun run_batches :: "'k FailureThreshold \<Rightarrow> 'k list list \<Rightarrow> 'k FailureThreshold" where
  "run_batches s [] = s"
| "run_batches s (b # bs) = run_batches (snd (update_failure_counts s b)) bs"

text \<open>Polling \<open>is_failed_update\<close> \<open>n\<close> times in a row: the verdicts, and the accountant left.\<close>

fun poll :: "nat \<Rightarrow> 'k FailureThreshold \<Rightarrow> bool list \<times> 'k FailureThreshold" where
  "poll 0 s = ([], s)"
| "poll (Suc n) s =
     (case is_failed_update s of
        (is_failed, logged, s') \<Rightarrow>
          (case poll n s' of (verdicts, s'') \<Rightarrow> (is_failed # verdicts, s'')))"

text \<open>
  The specification's \<open>exceeded_count\<close> counts the members of this set: the distinct
  instances of the counter dictionary whose stored counter is above the per-instance
  limit.
\<close>

definition over_limit_instances :: "'k FailureThreshold \<Rightarrow> 'k set" where
  "over_limit_instances s =
     Set.filter (\<lambda>i. failure_count s i > ft_max_per_instance_failures s)
                (set (map fst (ft_failures_by_instance s)))"

text \<open>
  The rollout of the specification's end-to-end scenario after its second batch: both
  limits are 1, the batches so far were \<open>[2, 5]\<close> and \<open>[2]\<close>.
\<close>

definition scenario_after_batch_2 :: "int FailureThreshold" where
  "scenario_after_batch_2 = run_batches (FailureThreshold_init 1 1) [[2, 5], [2]]"

section \<open>Properties of the dictionary and of the loop\<close>

lemma map_of_dict_setitem: "map_of (dict_setitem d k v) = (map_of d)(k \<mapsto> v)"
  by (induction d) (auto simp: fun_eq_iff)

lemma keys_dict_setitem:
  "map fst (dict_setitem d k v) = (if k \<in> set (map fst d) then map fst d else map fst d @ [k])"
  by (induction d) (auto simp: rev_image_eqI)

lemma dict_setitem_twice: "dict_setitem (dict_setitem d k u) k v = dict_setitem d k v"
  by (induction d) auto

lemma body_eq:
  "update_failure_counts_body s exceeded inst =
     ((if failure_count s inst + 1 > ft_max_per_instance_failures s
       then exceeded @ [inst] else exceeded),
      s\<lparr>ft_failures_by_instance :=
          dict_setitem (ft_failures_by_instance s) inst (failure_count s inst + 1)\<rparr>)"
  by (simp add: update_failure_counts_body_def defaultdict_getitem_def failure_count_def
      map_of_dict_setitem dict_setitem_twice split: option.splits)

lemma failure_count_body:
  "failure_count (snd (update_failure_counts_body s exceeded inst)) i =
     failure_count s i + (if i = inst then 1 else 0)"
  by (simp add: body_eq) (simp add: failure_count_def map_of_dict_setitem)

lemma limits_body:
  "ft_max_per_instance_failures (snd (update_failure_counts_body s exceeded inst)) =
     ft_max_per_instance_failures s"
  "ft_max_total_failures (snd (update_failure_counts_body s exceeded inst)) =
     ft_max_total_failures s"
  by (simp_all add: body_eq)

lemma loop_append:
  "update_failure_counts_loop s exceeded (xs @ ys) =
     (case update_failure_counts_loop s exceeded xs of
        (exceeded', s') \<Rightarrow> update_failure_counts_loop s' exceeded' ys)"
  by (induction xs arbitrary: s exceeded) (auto split: prod.splits)

lemma loop_acc:
  "update_failure_counts_loop s exceeded xs =
     (exceeded @ fst (update_failure_counts_loop s [] xs),
      snd (update_failure_counts_loop s [] xs))"
proof (induction xs arbitrary: s exceeded)
  case Nil
  show ?case by simp
next
  case (Cons x xs)
  define new where "new = (if failure_count s x + 1 > ft_max_per_instance_failures s
                           then [x] else [])"
  define s' where "s' = s\<lparr>ft_failures_by_instance :=
          dict_setitem (ft_failures_by_instance s) x (failure_count s x + 1)\<rparr>"
  have b1: "update_failure_counts_body s exceeded x = (exceeded @ new, s')"
    by (simp add: body_eq new_def s'_def)
  have b2: "update_failure_counts_body s [] x = (new, s')"
    by (simp add: body_eq new_def s'_def)
  have l1: "update_failure_counts_loop s' (exceeded @ new) xs =
     ((exceeded @ new) @ fst (update_failure_counts_loop s' [] xs),
      snd (update_failure_counts_loop s' [] xs))"
    by (rule Cons.IH)
  have l2: "update_failure_counts_loop s' new xs =
     (new @ fst (update_failure_counts_loop s' [] xs),
      snd (update_failure_counts_loop s' [] xs))"
    by (rule Cons.IH)
  show ?case by (simp add: b1 b2 l1 l2)
qed

lemma failure_count_loop:
  "failure_count (snd (update_failure_counts_loop s exceeded xs)) i =
     failure_count s i + int (count_list xs i)"
proof (induction xs arbitrary: s exceeded)
  case Nil
  show ?case by simp
next
  case (Cons x xs)
  obtain e' s' where b: "update_failure_counts_body s exceeded x = (e', s')"
    by (cases "update_failure_counts_body s exceeded x")
  have "failure_count s' i = failure_count s i + (if i = x then 1 else 0)"
    using failure_count_body [of s exceeded x i] b by simp
  then show ?case using Cons.IH [of s' e'] b by simp
qed


lemma limits_loop:
  "ft_max_per_instance_failures (snd (update_failure_counts_loop s exceeded xs)) =
     ft_max_per_instance_failures s \<and>
   ft_max_total_failures (snd (update_failure_counts_loop s exceeded xs)) =
     ft_max_total_failures s"
proof (induction xs arbitrary: s exceeded)
  case Nil
  show ?case by simp
next
  case (Cons x xs)
  obtain e' s' where b: "update_failure_counts_body s exceeded x = (e', s')"
    by (cases "update_failure_counts_body s exceeded x")
  have "ft_max_per_instance_failures s' = ft_max_per_instance_failures s"
       "ft_max_total_failures s' = ft_max_total_failures s"
    using limits_body [of s exceeded x] b by simp_all
  then show ?case using Cons.IH [of s' e'] b by simp
qed

lemma loop_snoc:
  "update_failure_counts_loop s [] (xs @ [x]) =
     (fst (update_failure_counts_loop s [] xs) @
        (if failure_count s x + int (count_list xs x) + 1 > ft_max_per_instance_failures s
         then [x] else []),
      snd (update_failure_counts_body (snd (update_failure_counts_loop s [] xs)) [] x))"
proof -
  obtain e' s' where l: "update_failure_counts_loop s [] xs = (e', s')"
    by (cases "update_failure_counts_loop s [] xs")
  have c: "failure_count s' x = failure_count s x + int (count_list xs x)"
    using failure_count_loop [of s "[]" xs x] l by simp
  have m: "ft_max_per_instance_failures s' = ft_max_per_instance_failures s"
    using limits_loop [of s "[]" xs] l by simp
  show ?thesis
    by (simp add: loop_append l body_eq c m)
qed

lemma returned_positions:
  "fst (update_failure_counts_loop s [] xs) =
     map (\<lambda>n. xs ! n)
       (filter (\<lambda>n. failure_count s (xs ! n) + int (count_list (take (Suc n) xs) (xs ! n))
                      > ft_max_per_instance_failures s)
          [0..<length xs])"
proof (induction xs rule: rev_induct)
  case Nil
  show ?case by simp
next
  case (snoc x xs)
  define P where "P = (\<lambda>ys n. failure_count s (ys ! n) +
      int (count_list (take (Suc n) ys) (ys ! n)) > ft_max_per_instance_failures s)"
  have f: "filter (P (xs @ [x])) [0..<length xs] = filter (P xs) [0..<length xs]"
    by (rule filter_cong) (simp_all add: P_def nth_append)
  have m: "map (\<lambda>n. (xs @ [x]) ! n) ns = map (\<lambda>n. xs ! n) ns"
    if "set ns \<subseteq> {0..<length xs}" for ns
    using that by (intro map_cong) (auto simp: nth_append)
  have old: "map (\<lambda>n. (xs @ [x]) ! n) (filter (P (xs @ [x])) [0..<length xs]) =
             fst (update_failure_counts_loop s [] xs)"
    unfolding f using snoc.IH by (subst m) (auto simp: P_def)
  have new: "P (xs @ [x]) (length xs) \<longleftrightarrow>
       failure_count s x + int (count_list xs x) + 1 > ft_max_per_instance_failures s"
    by (auto simp: P_def)
  have "map (\<lambda>n. (xs @ [x]) ! n) (filter (P (xs @ [x])) [0..<length (xs @ [x])]) =
        map (\<lambda>n. (xs @ [x]) ! n) (filter (P (xs @ [x])) [0..<length xs]) @
        (if P (xs @ [x]) (length xs) then [x] else [])"
    by simp
  also have "\<dots> = fst (update_failure_counts_loop s [] (xs @ [x]))"
    unfolding old new by (simp add: loop_snoc)
  finally show ?case
    unfolding P_def by simp
qed

lemma returned_set:
  "set (fst (update_failure_counts_loop s [] xs)) =
     {i \<in> set xs. failure_count s i + int (count_list xs i) > ft_max_per_instance_failures s}"
proof (induction xs rule: rev_induct)
  case Nil
  show ?case by simp
next
  case (snoc x xs)
  have "\<And>i. i \<in> set xs \<Longrightarrow> 0 < count_list xs i"
    by (metis count_list_0_iff gr0I)
  then show ?case
    by (auto simp: loop_snoc snoc.IH)
qed

lemma returned_count:
  "count_list (fst (update_failure_counts_loop s exceeded xs)) a =
     count_list exceeded a +
     nat (min (int (count_list xs a))
              (failure_count s a + int (count_list xs a) - ft_max_per_instance_failures s))"
proof (induction xs arbitrary: s exceeded)
  case Nil
  show ?case by simp
next
  case (Cons x xs)
  obtain e' s' where b: "update_failure_counts_body s exceeded x = (e', s')"
    by (cases "update_failure_counts_body s exceeded x")
  have e': "e' = (if failure_count s x + 1 > ft_max_per_instance_failures s
                  then exceeded @ [x] else exceeded)"
    using b by (simp add: body_eq)
  have c: "failure_count s' a = failure_count s a + (if a = x then 1 else 0)"
    using failure_count_body [of s exceeded x a] b by simp
  have m: "ft_max_per_instance_failures s' = ft_max_per_instance_failures s"
    using limits_body [of s exceeded x] b by simp
  have "count_list (fst (update_failure_counts_loop s exceeded (x # xs))) a =
        count_list e' a +
        nat (min (int (count_list xs a))
              (failure_count s' a + int (count_list xs a) - ft_max_per_instance_failures s))"
    using Cons.IH [of s' e'] by (simp add: b m)
  also have "\<dots> = count_list exceeded a +
     nat (min (int (count_list (x # xs) a))
              (failure_count s a + int (count_list (x # xs) a) - ft_max_per_instance_failures s))"
    unfolding e' c by (cases "a = x") auto
  finally show ?case .
qed

section \<open>Properties of the accountant\<close>

lemma update_append:
  "update_failure_counts s (xs @ ys) =
     (fst (update_failure_counts s xs) @ fst (update_failure_counts (snd (update_failure_counts s xs)) ys),
      snd (update_failure_counts (snd (update_failure_counts s xs)) ys))"
proof -
  obtain e' s' where l: "update_failure_counts_loop s [] xs = (e', s')"
    by (cases "update_failure_counts_loop s [] xs")
  show ?thesis
    unfolding update_failure_counts_def
    by (simp add: loop_append l) (subst loop_acc, simp)
qed

lemma failure_count_update:
  "failure_count (snd (update_failure_counts s xs)) i = failure_count s i + int (count_list xs i)"
  by (simp add: update_failure_counts_def failure_count_loop)

lemma limits_update:
  "ft_max_per_instance_failures (snd (update_failure_counts s xs)) = ft_max_per_instance_failures s"
  "ft_max_total_failures (snd (update_failure_counts s xs)) = ft_max_total_failures s"
  by (simp_all add: update_failure_counts_def limits_loop)

lemma keys_loop:
  "set (map fst (ft_failures_by_instance (snd (update_failure_counts_loop s exceeded xs)))) =
     set (map fst (ft_failures_by_instance s)) \<union> set xs"
proof (induction xs arbitrary: s exceeded)
  case Nil
  show ?case by simp
next
  case (Cons x xs)
  show ?case
    by (simp add: body_eq Cons.IH keys_dict_setitem del: set_map) auto
qed

lemma keys_update:
  "set (map fst (ft_failures_by_instance (snd (update_failure_counts s xs)))) =
     set (map fst (ft_failures_by_instance s)) \<union> set xs"
  by (simp add: update_failure_counts_def keys_loop del: set_map)

lemma wf_loop:
  "wf_counters s \<Longrightarrow> wf_counters (snd (update_failure_counts_loop s exceeded xs))"
proof (induction xs arbitrary: s exceeded)
  case Nil
  then show ?case by simp
next
  case (Cons x xs)
  have "wf_counters (snd (update_failure_counts_body s exceeded x))"
    using Cons.prems by (simp add: body_eq wf_counters_def keys_dict_setitem)
  then show ?case
    using Cons.IH by (simp split: prod.splits) (metis snd_conv)
qed

lemma wf_update: "wf_counters s \<Longrightarrow> wf_counters (snd (update_failure_counts s xs))"
  by (simp add: update_failure_counts_def wf_loop)

lemma wf_init: "wf_counters (FailureThreshold_init p t)"
  by (simp add: wf_counters_def FailureThreshold_init_def)

lemma wf_run_batches: "wf_counters s \<Longrightarrow> wf_counters (run_batches s bs)"
  by (induction bs arbitrary: s) (simp_all add: wf_update)

lemma over_limit_instances_eq:
  "over_limit_instances s =
     {i. \<exists>c. map_of (ft_failures_by_instance s) i = Some c \<and> c > ft_max_per_instance_failures s}"
proof -
  have "i \<in> over_limit_instances s \<longleftrightarrow>
        (\<exists>c. map_of (ft_failures_by_instance s) i = Some c \<and> c > ft_max_per_instance_failures s)"
    for i
  proof (cases "map_of (ft_failures_by_instance s) i")
    case None
    then have "i \<notin> fst ` set (ft_failures_by_instance s)"
      by (simp add: map_of_eq_None_iff)
    then show ?thesis
      using None by (simp add: over_limit_instances_def)
  next
    case (Some c)
    then have "i \<in> fst ` set (ft_failures_by_instance s)"
      using map_of_eq_None_iff [of "ft_failures_by_instance s" i] by simp
    then show ?thesis
      using Some by (simp add: over_limit_instances_def failure_count_def)
  qed
  then show ?thesis by blast
qed

lemma exceeded_count_length:
  "exceeded_instance_fail_count s =
     int (length (filter (\<lambda>(i, c). c > ft_max_per_instance_failures s)
                    (ft_failures_by_instance s)))"
proof -
  have "sum_list (map (\<lambda>c. of_bool (c > l)) (map snd d)) =
        int (length (filter (\<lambda>(i, c). c > l) d))" for l :: int and d :: "('k \<times> int) list"
    by (induction d) auto
  then show ?thesis
    by (simp add: exceeded_instance_fail_count_def dict_values_def)
qed

lemma exceeded_count_card:
  assumes "wf_counters s"
  shows "exceeded_instance_fail_count s = int (card (over_limit_instances s))"
proof -
  let ?d = "ft_failures_by_instance s"
  let ?f = "filter (\<lambda>(i, c). c > ft_max_per_instance_failures s) ?d"
  have d: "distinct (map fst ?d)"
    using assms by (simp add: wf_counters_def)
  then have "distinct (map fst ?f)"
    by (rule distinct_map_filter)
  then have "card (set (map fst ?f)) = length ?f"
    using distinct_card [of "map fst ?f"] by simp
  moreover have "set (map fst ?f) = over_limit_instances s"
    using d by (auto simp: over_limit_instances_eq image_iff)
  ultimately show ?thesis
    by (simp add: exceeded_count_length)
qed

lemma returned_set_update:
  "set (fst (update_failure_counts s xs)) =
     {i \<in> set xs. failure_count (snd (update_failure_counts s xs)) i
                    > ft_max_per_instance_failures s}"
  by (simp add: failure_count_update) (simp add: update_failure_counts_def returned_set)

lemma failure_count_run_batches:
  "failure_count s i \<le> failure_count (run_batches s bs) i"
proof (induction bs arbitrary: s)
  case Nil
  show ?case by simp
next
  case (Cons b bs)
  have "failure_count s i \<le> failure_count (snd (update_failure_counts s b)) i"
    by (simp add: failure_count_update)
  also have "\<dots> \<le> failure_count (run_batches (snd (update_failure_counts s b)) bs) i"
    by (rule Cons.IH)
  finally show ?case by simp
qed

lemma limits_run_batches:
  "ft_max_per_instance_failures (run_batches s bs) = ft_max_per_instance_failures s \<and>
   ft_max_total_failures (run_batches s bs) = ft_max_total_failures s"
  by (induction bs arbitrary: s) (simp_all add: limits_update)

lemma failure_count_key:
  "i \<notin> set (map fst (ft_failures_by_instance s)) \<Longrightarrow> failure_count s i = 0"
  by (simp add: failure_count_def map_of_eq_None_iff [THEN iffD2])

text \<open>In a rollout every stored counter is at least 1: a key is stored when it is counted.\<close>

lemma stored_positive_update:
  assumes "\<And>i. i \<in> set (map fst (ft_failures_by_instance s)) \<Longrightarrow> 1 \<le> failure_count s i"
    and "i \<in> set (map fst (ft_failures_by_instance (snd (update_failure_counts s xs))))"
  shows "1 \<le> failure_count (snd (update_failure_counts s xs)) i"
proof (cases "i \<in> set (map fst (ft_failures_by_instance s))")
  case True
  then show ?thesis
    using assms(1) [of i] by (simp add: failure_count_update)
next
  case False
  then have "i \<in> set xs"
    using assms(2) keys_update [of s xs] by blast
  then have "0 < count_list xs i"
    by (metis count_list_0_iff gr0I)
  then show ?thesis
    using failure_count_key [OF False] by (simp add: failure_count_update)
qed

lemma stored_positive_run_batches:
  "(\<And>i. i \<in> set (map fst (ft_failures_by_instance s)) \<Longrightarrow> 1 \<le> failure_count s i) \<Longrightarrow>
   i \<in> set (map fst (ft_failures_by_instance (run_batches s bs))) \<Longrightarrow>
   1 \<le> failure_count (run_batches s bs) i"
proof (induction bs arbitrary: s)
  case Nil
  then show ?case by simp
next
  case (Cons b bs)
  show ?case
    using Cons.IH [of "snd (update_failure_counts s b)"] Cons.prems stored_positive_update [of s _ b]
    by simp
qed

lemma stored_positive_rollout:
  "i \<in> set (map fst (ft_failures_by_instance (run_batches (FailureThreshold_init p t) bs))) \<Longrightarrow>
   1 \<le> failure_count (run_batches (FailureThreshold_init p t) bs) i"
  by (rule stored_positive_run_batches) (simp_all add: FailureThreshold_init_def)

section \<open>The claims\<close>

text \<open>
  C3. Constructing the update parameters raises exactly when the batch size, the restart
  threshold or the watch time is not positive, and the message of the error names a
  field that is not positive; when all three are positive the object is built with the
  five values as given, whatever the two failure limits are, negative ones included.
\<close>

theorem C3_UpdaterConfig_validation:
  "((\<exists>e. UpdaterConfig_init bs rt ws mps mtf = Inl e) \<longleftrightarrow> (bs \<le> 0 \<or> rt \<le> 0 \<or> ws \<le> 0)) \<and>
   (\<forall>msg. UpdaterConfig_init bs rt ws mps mtf = Inl (ValueError msg) \<longrightarrow>
      (msg = ''Batch size should be greater than 0'' \<and> bs \<le> 0) \<or>
      (msg = ''Restart Threshold should be greater than 0'' \<and> rt \<le> 0) \<or>
      (msg = ''Watch seconds should be greater than 0'' \<and> ws \<le> 0)) \<and>
   (0 < bs \<and> 0 < rt \<and> 0 < ws \<longrightarrow>
      UpdaterConfig_init bs rt ws mps mtf =
        Inr \<lparr> batch_size = bs, restart_threshold = rt, watch_secs = ws,
              max_total_failures = mtf, max_per_instance_failures = mps \<rparr>)"
  by (simp add: UpdaterConfig_init_def)

theorem C3_UpdaterConfig_validation_witness:
  "UpdaterConfig_init 3 10 0 (- 1) (- 2) = Inl (ValueError ''Watch seconds should be greater than 0'') \<and>
   (0::int) < 3 \<and> (0::int) < 10 \<and> (0::int) < 30 \<and>
   UpdaterConfig_init 3 10 30 (- 1) (- 2) =
     Inr \<lparr> batch_size = 3, restart_threshold = 10, watch_secs = 30,
           max_total_failures = - 2, max_per_instance_failures = - 1 \<rparr>"
proof -
  have e: "UpdaterConfig_init 3 10 0 (- 1) (- 2) =
           Inl (ValueError ''Watch seconds should be greater than 0'')"
    by (simp add: UpdaterConfig_init_def)
  have p: "(0::int) < 3 \<and> (0::int) < 10 \<and> (0::int) < 30"
    by simp
  show ?thesis
    using C3_UpdaterConfig_validation [of 3 10 0 "- 1" "- 2"]
          C3_UpdaterConfig_validation [of 3 10 30 "- 1" "- 2"] e p
    by blast
qed

text \<open>
  C4. Recording \<open>[a, a]\<close> raises the stored counter of \<open>a\<close> by exactly 2 and leaves the
  accountant that recording \<open>[a]\<close> twice leaves; in general the counter of an instance
  grows by the number of its occurrences in the batch.
\<close>

theorem C4_duplicates_count_individually:
  "failure_count (snd (update_failure_counts s [a, a])) a = failure_count s a + 2 \<and>
   map_of (ft_failures_by_instance (snd (update_failure_counts s [a, a]))) a =
     Some (failure_count s a + 2) \<and>
   snd (update_failure_counts s [a, a]) =
     snd (update_failure_counts (snd (update_failure_counts s [a])) [a]) \<and>
   failure_count (snd (update_failure_counts s xs)) i = failure_count s i + int (count_list xs i)"
proof -
  have "snd (update_failure_counts s ([a] @ [a])) =
        snd (update_failure_counts (snd (update_failure_counts s [a])) [a])"
    by (subst update_append) simp
  moreover have "map_of (ft_failures_by_instance (snd (update_failure_counts s [a, a]))) a =
     Some (failure_count s a + 2)"
    by (simp add: update_failure_counts_def body_eq map_of_dict_setitem failure_count_def)
  ultimately show ?thesis
    by (simp add: failure_count_update)
qed

text \<open>
  C6. Recording the empty batch returns the empty list and the accountant unchanged, so
  every counter and the verdict of \<open>is_failed_update\<close> are what they were.
\<close>

theorem C6_empty_batch_noop:
  "update_failure_counts s [] = ([], s) \<and>
   failure_count (snd (update_failure_counts s [])) i = failure_count s i \<and>
   fst (is_failed_update (snd (update_failure_counts s []))) = fst (is_failed_update s)"
  by (simp add: update_failure_counts_def)

text \<open>
  C7. \<open>is_failed_update\<close> leaves the accountant as it found it, the counter dictionary
  and both limits, and any number of consecutive polls give the same verdict.
\<close>

theorem C7_is_failed_update_pure:
  "snd (snd (is_failed_update s)) = s \<and>
   ft_failures_by_instance (snd (snd (is_failed_update s))) = ft_failures_by_instance s \<and>
   ft_max_per_instance_failures (snd (snd (is_failed_update s))) = ft_max_per_instance_failures s \<and>
   ft_max_total_failures (snd (snd (is_failed_update s))) = ft_max_total_failures s \<and>
   poll n s = (replicate n (fst (is_failed_update s)), s)"
proof -
  have u: "snd (snd (is_failed_update s)) = s"
    by (simp add: is_failed_update_def Let_def)
  have "poll n s = (replicate n (fst (is_failed_update s)), s)"
  proof (induction n)
    case 0
    show ?case by simp
  next
    case (Suc n)
    obtain b l s' where r: "is_failed_update s = (b, l, s')"
      by (cases "is_failed_update s")
    then have "s' = s" using u by simp
    then show ?case using Suc r by simp
  qed
  then show ?thesis using u by simp
qed

text \<open>
  C9. With a negative total limit a fresh accountant already reports the update as
  failed: no instance is over its limit, and 0 is above the negative limit.
\<close>

theorem C9_negative_total_limit:
  "max_total < 0 \<Longrightarrow> fst (is_failed_update (FailureThreshold_init max_per max_total))"
  by (simp add: is_failed_update_def FailureThreshold_init_def exceeded_instance_fail_count_def
      dict_values_def)

theorem C9_negative_total_limit_witness:
  "(- 1 :: int) < 0 \<and> fst (is_failed_update (FailureThreshold_init 0 (- 1)))"
  using C9_negative_total_limit [of "- 1" 0] by simp

text \<open>
  C1, as the code has it. The list returned by \<open>update_failure_counts\<close> holds exactly
  the instances above the per-instance limit that occur in the batch of this call: the
  loop appends only the instance it has just counted.
\<close>

theorem C1_returned_is_over_limit_of_this_call:
  "set (fst (update_failure_counts s xs)) =
     over_limit_instances (snd (update_failure_counts s xs)) \<inter> set xs"
proof -
  have "set xs \<subseteq> set (map fst (ft_failures_by_instance (snd (update_failure_counts s xs))))"
    using keys_update [of s xs] by blast
  then show ?thesis
    unfolding returned_set_update over_limit_instances_def
    by (auto simp: limits_update)
qed

text \<open>
  In the end-to-end scenario of the specification the third batch \<open>[5]\<close> returns
  \<open>[5]\<close>: instance 2 is above the limit since the second batch, and is not returned.
\<close>

theorem C1_counterexample:
  "2 \<in> over_limit_instances (snd (update_failure_counts scenario_after_batch_2 [5])) \<and>
   2 \<notin> set (fst (update_failure_counts scenario_after_batch_2 [5])) \<and>
   fst (update_failure_counts scenario_after_batch_2 [5]) = [5]"
  by code_simp

text \<open>
  C2. \<open>is_failed_update\<close> answers true exactly when the number of distinct instances
  whose stored counter is strictly above the per-instance limit is strictly above the
  total limit.
\<close>

theorem C2_is_failed_update_iff:
  "wf_counters s \<Longrightarrow>
     (fst (is_failed_update s) \<longleftrightarrow>
        int (card (over_limit_instances s)) > ft_max_total_failures s) \<and>
     over_limit_instances s =
       {i. \<exists>c. map_of (ft_failures_by_instance s) i = Some c \<and>
                c > ft_max_per_instance_failures s}"
  using over_limit_instances_eq [of s]
  by (simp add: is_failed_update_def Let_def exceeded_count_card)


theorem C2_is_failed_update_iff_witness:
  "wf_counters \<lparr> ft_max_per_instance_failures = 1, ft_max_total_failures = 1,
                   ft_failures_by_instance = [(2::int, 2), (5, 2), (7, 1)] \<rparr> \<and>
   fst (is_failed_update \<lparr> ft_max_per_instance_failures = 1, ft_max_total_failures = 1,
                           ft_failures_by_instance = [(2::int, 2), (5, 2), (7, 1)] \<rparr>) \<and>
   int (card (over_limit_instances \<lparr> ft_max_per_instance_failures = 1, ft_max_total_failures = 1,
                           ft_failures_by_instance = [(2::int, 2), (5, 2), (7, 1)] \<rparr>)) > 1"
proof -
  let ?s = "\<lparr> ft_max_per_instance_failures = 1, ft_max_total_failures = 1,
              ft_failures_by_instance = [(2::int, 2), (5, 2), (7, 1)] \<rparr>"
  have w: "wf_counters ?s"
    by (simp add: wf_counters_def)
  have f: "fst (is_failed_update ?s)"
    by (simp add: is_failed_update_def exceeded_instance_fail_count_def dict_values_def)
  have t: "ft_max_total_failures ?s = 1"
    by simp
  have "fst (is_failed_update ?s) \<longleftrightarrow> int (card (over_limit_instances ?s)) > 1"
    using C2_is_failed_update_iff [OF w, THEN conjunct1] unfolding t .
  then show ?thesis
    using w f by blast
qed

text \<open>
  C5. With a per-instance limit of 1 and no failure of \<open>a\<close> recorded before: a call
  whose batch, whatever else it holds, names \<open>a\<close> once does not return \<open>a\<close>; a call
  whose batch names \<open>a\<close> twice or more does; and once any batch naming \<open>a\<close> has been
  recorded, every later call whose batch names \<open>a\<close> returns it, whatever was recorded in
  between. With a limit of 0, any batch naming \<open>a\<close> returns \<open>a\<close> at its first recorded
  failure.
\<close>

theorem C5_strict_per_instance_limit:
  "(ft_max_per_instance_failures s = 1 \<and> failure_count s a = 0 \<and> count_list xs a = 1 \<longrightarrow>
      a \<notin> set (fst (update_failure_counts s xs))) \<and>
   (ft_max_per_instance_failures s = 1 \<and> failure_count s a = 0 \<and> 2 \<le> count_list xs a \<longrightarrow>
      a \<in> set (fst (update_failure_counts s xs))) \<and>
   (ft_max_per_instance_failures s = 1 \<and> failure_count s a = 0 \<and> a \<in> set ys \<and> a \<in> set xs \<longrightarrow>
      a \<in> set (fst (update_failure_counts
                       (run_batches (snd (update_failure_counts s ys)) mid) xs))) \<and>
   (ft_max_per_instance_failures s = 0 \<and> failure_count s a = 0 \<and> a \<in> set xs \<longrightarrow>
      a \<in> set (fst (update_failure_counts s xs)))"
proof -
  let ?s1 = "snd (update_failure_counts s ys)"
  have first: "failure_count ?s1 a = failure_count s a + int (count_list ys a)"
    by (simp add: failure_count_update)
  have later: "failure_count ?s1 a \<le> failure_count (run_batches ?s1 mid) a"
    by (rule failure_count_run_batches)
  have lim: "ft_max_per_instance_failures (run_batches ?s1 mid) = ft_max_per_instance_failures s"
    by (simp add: limits_run_batches limits_update)
  have pos: "0 < count_list zs a" if "a \<in> set zs" for zs
    using that by (metis count_list_0_iff gr0I)
  have mem: "a \<in> set xs" if "2 \<le> count_list xs a"
    using that by (metis count_list_0_iff not_numeral_le_zero)
  have c1: "a \<notin> set (fst (update_failure_counts s xs))"
    if "ft_max_per_instance_failures s = 1" "failure_count s a = 0" "count_list xs a = 1"
    using that by (simp add: returned_set_update failure_count_update)
  have c2: "a \<in> set (fst (update_failure_counts s xs))"
    if "ft_max_per_instance_failures s = 1" "failure_count s a = 0" "2 \<le> count_list xs a"
    using that mem by (simp add: returned_set_update failure_count_update)
  have c3: "a \<in> set (fst (update_failure_counts (run_batches ?s1 mid) xs))"
    if "ft_max_per_instance_failures s = 1" "failure_count s a = 0" "a \<in> set ys" "a \<in> set xs"
    using that first later lim pos [of ys] pos [of xs]
    by (simp add: returned_set_update failure_count_update)
  have c4: "a \<in> set (fst (update_failure_counts s xs))"
    if "ft_max_per_instance_failures s = 0" "failure_count s a = 0" "a \<in> set xs"
    using that pos [of xs] by (simp add: returned_set_update failure_count_update)
  show ?thesis
    using c1 c2 c3 c4 by blast
qed

theorem C5_strict_per_instance_limit_witness:
  "ft_max_per_instance_failures (snd (update_failure_counts (FailureThreshold_init 1 5) [9 :: int])) = 1 \<and>
   failure_count (snd (update_failure_counts (FailureThreshold_init 1 5) [9 :: int])) 7 = 0 \<and>
   count_list [7, 9 :: int] 7 = 1 \<and>
   7 \<notin> set (fst (update_failure_counts
                   (snd (update_failure_counts (FailureThreshold_init 1 5) [9])) [7, 9 :: int])) \<and>
   2 \<le> count_list [7, 3, 7 :: int] 7 \<and>
   7 \<in> set (fst (update_failure_counts
                   (snd (update_failure_counts (FailureThreshold_init 1 5) [9])) [7, 3, 7 :: int])) \<and>
   7 \<in> set [7, 9 :: int] \<and> 7 \<in> set [3, 7 :: int] \<and>
   7 \<in> set (fst (update_failure_counts
                   (run_batches
                      (snd (update_failure_counts
                              (snd (update_failure_counts (FailureThreshold_init 1 5) [9]))
                              [7, 9]))
                      [[3], [4, 3]])
                   [3, 7 :: int])) \<and>
   ft_max_per_instance_failures (FailureThreshold_init 0 5 :: int FailureThreshold) = 0 \<and>
   failure_count (FailureThreshold_init 0 5 :: int FailureThreshold) 7 = 0 \<and>
   7 \<in> set (fst (update_failure_counts (FailureThreshold_init 0 5) [3, 7 :: int]))"
proof -
  let ?s = "snd (update_failure_counts (FailureThreshold_init 1 5) [9 :: int])"
  have l1: "ft_max_per_instance_failures ?s = 1"
    by (simp add: limits_update FailureThreshold_init_def)
  have c1: "failure_count ?s 7 = 0"
    by (simp add: failure_count_update) (simp add: FailureThreshold_init_def failure_count_def)
  have l0: "ft_max_per_instance_failures (FailureThreshold_init 0 5 :: int FailureThreshold) = 0"
    and c0: "failure_count (FailureThreshold_init 0 5 :: int FailureThreshold) 7 = 0"
    by (simp_all add: FailureThreshold_init_def failure_count_def)
  have k1: "count_list [7, 9 :: int] 7 = 1" and k2: "2 \<le> count_list [7, 3, 7 :: int] 7"
    and m1: "7 \<in> set [7, 9 :: int]" and m2: "7 \<in> set [3, 7 :: int]"
    by simp_all
  show ?thesis
    using C5_strict_per_instance_limit [of ?s 7 "[7, 9]" "[7, 9]" "[[3], [4, 3]]"]
          C5_strict_per_instance_limit [of ?s 7 "[7, 3, 7]" "[7, 9]" "[[3], [4, 3]]"]
          C5_strict_per_instance_limit [of ?s 7 "[3, 7]" "[7, 9]" "[[3], [4, 3]]"]
          C5_strict_per_instance_limit
            [of "FailureThreshold_init 0 5 :: int FailureThreshold" 7 "[3, 7]" "[]" "[]"]
          l1 c1 l0 c0 k1 k2 m1 m2
    by blast
qed

text \<open>
  C10. The returned list is the subsequence of the batch, in the order of the batch, of
  the occurrences after which the counter of the instance is strictly above the
  per-instance limit. An instance that occurs \<open>k\<close> times and is above the limit after its
  \<open>j\<close>-th occurrence is therefore returned at least \<open>k - j + 1\<close> times, and exactly so
  often when the \<open>j\<close>-th occurrence is the first to bring it above the limit.
\<close>

theorem C10_returned_list_positions:
  "fst (update_failure_counts s xs) =
     map (\<lambda>n. xs ! n)
       (filter (\<lambda>n. failure_count s (xs ! n) + int (count_list (take (Suc n) xs) (xs ! n))
                      > ft_max_per_instance_failures s)
          [0..<length xs]) \<and>
   (1 \<le> j \<and> j \<le> count_list xs a \<and>
    failure_count s a + int j > ft_max_per_instance_failures s \<longrightarrow>
      count_list xs a - j + 1 \<le> count_list (fst (update_failure_counts s xs)) a) \<and>
   (1 \<le> j \<and> j \<le> count_list xs a \<and>
    failure_count s a + int j > ft_max_per_instance_failures s \<and>
    failure_count s a + int j - 1 \<le> ft_max_per_instance_failures s \<longrightarrow>
      count_list (fst (update_failure_counts s xs)) a = count_list xs a - j + 1)"
proof -
  have c: "count_list (fst (update_failure_counts s xs)) a =
     nat (min (int (count_list xs a))
              (failure_count s a + int (count_list xs a) - ft_max_per_instance_failures s))"
    by (simp add: update_failure_counts_def returned_count)
  have p: "fst (update_failure_counts s xs) =
     map (\<lambda>n. xs ! n)
       (filter (\<lambda>n. failure_count s (xs ! n) + int (count_list (take (Suc n) xs) (xs ! n))
                      > ft_max_per_instance_failures s)
          [0..<length xs])"
    unfolding update_failure_counts_def by (rule returned_positions)
  have lower: "count_list xs a - j + 1 \<le> count_list (fst (update_failure_counts s xs)) a"
    if "1 \<le> j" "j \<le> count_list xs a"
       "failure_count s a + int j > ft_max_per_instance_failures s"
    using that unfolding c by linarith
  have exact: "count_list (fst (update_failure_counts s xs)) a = count_list xs a - j + 1"
    if "1 \<le> j" "j \<le> count_list xs a"
       "failure_count s a + int j > ft_max_per_instance_failures s"
       "failure_count s a + int j - 1 \<le> ft_max_per_instance_failures s"
    using that unfolding c by linarith
  show ?thesis
    using p lower exact by blast
qed

theorem C10_returned_list_positions_witness:
  "(1::nat) \<le> 2 \<and> 2 \<le> count_list [1, 2, 1, 1, 2, 3 :: int] 1 \<and>
   failure_count (FailureThreshold_init 1 0 :: int FailureThreshold) 1 + int 2
     > ft_max_per_instance_failures (FailureThreshold_init 1 0 :: int FailureThreshold) \<and>
   failure_count (FailureThreshold_init 1 0 :: int FailureThreshold) 1 + int 2 - 1
     \<le> ft_max_per_instance_failures (FailureThreshold_init 1 0 :: int FailureThreshold) \<and>
   count_list (fst (update_failure_counts (FailureThreshold_init 1 0) [1, 2, 1, 1, 2, 3 :: int])) 1 =
     count_list [1, 2, 1, 1, 2, 3 :: int] 1 - 2 + 1 \<and>
   fst (update_failure_counts (FailureThreshold_init 1 0) [1, 2, 1, 1, 2, 3 :: int]) = [1, 1, 2]"
proof -
  have j: "(1::nat) \<le> 2" and k: "2 \<le> count_list [1, 2, 1, 1, 2, 3 :: int] 1"
    by simp_all
  have a: "failure_count (FailureThreshold_init 1 0 :: int FailureThreshold) 1 + int 2
     > ft_max_per_instance_failures (FailureThreshold_init 1 0 :: int FailureThreshold)"
    and b: "failure_count (FailureThreshold_init 1 0 :: int FailureThreshold) 1 + int 2 - 1
     \<le> ft_max_per_instance_failures (FailureThreshold_init 1 0 :: int FailureThreshold)"
    by (simp_all add: FailureThreshold_init_def failure_count_def)
  have r: "fst (update_failure_counts (FailureThreshold_init 1 0) [1, 2, 1, 1, 2, 3 :: int]) =
           [1, 1, 2]"
    by code_simp
  show ?thesis
    using C10_returned_list_positions
            [of "FailureThreshold_init 1 0 :: int FailureThreshold" "[1, 2, 1, 1, 2, 3]" 2 1]
          j k a b r
    by blast
qed

text \<open>
  C8. A fresh accountant stores no counter, and the first read of an unknown instance
  gives 0. No operation lowers a counter or removes a key: \<open>update_failure_counts\<close>
  only adds, over one call and over a whole rollout, and \<open>is_failed_update\<close> changes
  nothing. In every accountant a rollout can reach, an instance without recorded
  failures is not a key of the dictionary and so is not among the instances that
  \<open>_exceeded_instance_fail_count\<close> counts, and it is not in the list a call returns.
\<close>

theorem C8_counters_start_at_zero_and_never_decrease:
  "ft_failures_by_instance (FailureThreshold_init p t :: 'k FailureThreshold) = [] \<and>
   failure_count (FailureThreshold_init p t :: 'k FailureThreshold) i = 0 \<and>
   (map_of d i = None \<longrightarrow> fst (defaultdict_getitem d i) = 0) \<and>
   failure_count s i \<le> failure_count (snd (update_failure_counts s xs)) i \<and>
   failure_count s i \<le> failure_count (run_batches s bs) i \<and>
   set (map fst (ft_failures_by_instance s)) \<subseteq>
     set (map fst (ft_failures_by_instance (snd (update_failure_counts s xs)))) \<and>
   snd (snd (is_failed_update s)) = s \<and>
   (failure_count (run_batches (FailureThreshold_init p t) bs) i = 0 \<longrightarrow>
      i \<notin> set (map fst (ft_failures_by_instance (run_batches (FailureThreshold_init p t) bs))) \<and>
      i \<notin> over_limit_instances (run_batches (FailureThreshold_init p t) bs)) \<and>
   exceeded_instance_fail_count (run_batches (FailureThreshold_init p t :: 'k FailureThreshold) bs) =
     int (card (over_limit_instances (run_batches (FailureThreshold_init p t :: 'k FailureThreshold) bs))) \<and>
   (failure_count (snd (update_failure_counts (run_batches (FailureThreshold_init p t) bs) xs)) i = 0 \<longrightarrow>
      i \<notin> set (fst (update_failure_counts (run_batches (FailureThreshold_init p t) bs) xs)))"
proof -
  let ?r = "run_batches (FailureThreshold_init p t :: 'k FailureThreshold) bs"
  have init: "ft_failures_by_instance (FailureThreshold_init p t :: 'k FailureThreshold) = []"
    "failure_count (FailureThreshold_init p t :: 'k FailureThreshold) i = 0"
    by (simp_all add: FailureThreshold_init_def failure_count_def)
  have first: "map_of d i = None \<longrightarrow> fst (defaultdict_getitem d i) = 0"
    by (simp add: defaultdict_getitem_def)
  have mono: "failure_count s i \<le> failure_count (snd (update_failure_counts s xs)) i"
    by (simp add: failure_count_update)
  have keys: "set (map fst (ft_failures_by_instance s)) \<subseteq>
     set (map fst (ft_failures_by_instance (snd (update_failure_counts s xs))))"
    using keys_update [of s xs] by blast
  have pure: "snd (snd (is_failed_update s)) = s"
    by (simp add: is_failed_update_def Let_def)
  have absent: "i \<notin> set (map fst (ft_failures_by_instance ?r))"
    if "failure_count ?r i = 0"
    using stored_positive_rollout [of i p t bs] that by auto
  have zero: "i \<notin> over_limit_instances ?r" if "failure_count ?r i = 0"
    using absent [OF that] by (simp add: over_limit_instances_def)
  have card: "exceeded_instance_fail_count ?r = int (card (over_limit_instances ?r))"
    by (rule exceeded_count_card) (rule wf_run_batches, rule wf_init)
  have ret: "i \<notin> set (fst (update_failure_counts ?r xs))"
    if z: "failure_count (snd (update_failure_counts ?r xs)) i = 0"
  proof
    assume "i \<in> set (fst (update_failure_counts ?r xs))"
    then have "i \<in> set xs"
      by (simp add: returned_set_update)
    then have "0 < count_list xs i"
      by (metis count_list_0_iff gr0I)
    moreover have "0 \<le> failure_count ?r i"
      using failure_count_run_batches [of "FailureThreshold_init p t" i bs] init(2) by simp
    ultimately show False
      using z by (simp add: failure_count_update)
  qed
  show ?thesis
    using init first mono failure_count_run_batches [of s i bs] keys pure absent zero card ret
    by blast
qed

theorem C8_counters_start_at_zero_and_never_decrease_witness:
  "map_of [(2::int, 1::int)] 7 = None \<and>
   fst (defaultdict_getitem [(2::int, 1)] 7) = 0 \<and>
   failure_count (run_batches (FailureThreshold_init (- 1) 1) [[2, 5], [2 :: int]]) 7 = 0 \<and>
   7 \<notin> set (map fst (ft_failures_by_instance
                (run_batches (FailureThreshold_init (- 1) 1) [[2, 5], [2 :: int]]))) \<and>
   7 \<notin> over_limit_instances (run_batches (FailureThreshold_init (- 1) 1) [[2, 5], [2 :: int]]) \<and>
   failure_count (snd (update_failure_counts
      (run_batches (FailureThreshold_init (- 1) 1) [[2, 5], [2 :: int]]) [5])) 7 = 0 \<and>
   7 \<notin> set (fst (update_failure_counts
      (run_batches (FailureThreshold_init (- 1) 1) [[2, 5], [2 :: int]]) [5]))"
proof -
  have m: "map_of [(2::int, 1::int)] 7 = None"
    by simp
  have z: "failure_count (run_batches (FailureThreshold_init (- 1) 1) [[2, 5], [2 :: int]]) 7 = 0"
    by code_simp
  have z': "failure_count (snd (update_failure_counts
      (run_batches (FailureThreshold_init (- 1) 1) [[2, 5], [2 :: int]]) [5])) 7 = 0"
    by code_simp
  show ?thesis
    using C8_counters_start_at_zero_and_never_decrease
            [of "- 1" 1 "7 :: int" "[(2, 1)]" "FailureThreshold_init 0 0" "[5]" "[[2, 5], [2]]"]
          m z z'
    by blast
qed

end
